theory Spec2Isabelle
  imports Complex_Main "HOL-Library.Log_Nat" "HOL-Library.Word"
begin

section \<open>Python numbers\<close>

text \<open>
  \<^verbatim>\<open>crop_thumb.py\<close> multiplies the image width, a Python \<^verbatim>\<open>int\<close>, by the literal
  \<^verbatim>\<open>0.45\<close>, a Python \<^verbatim>\<open>float\<close>, that is an IEEE 754 binary64 value.  A finite
  binary64 value is \<open>m * 2 ^ e\<close> for an integer mantissa \<open>m\<close> of at most 53 bits; the
  model keeps the pair.  Infinities, NaN and subnormal values cannot arise from a width
  below \<open>2 ^ 31\<close> and are not modelled.
\<close>

datatype dbl = Dbl (mantissa: int) (exponent: int)

definition dbl_val :: "dbl \<Rightarrow> rat" where
  "dbl_val x =
     (if 0 \<le> exponent x then of_int (mantissa x * 2 ^ nat (exponent x))
      else of_int (mantissa x) / of_int (2 ^ nat (- exponent x)))"

text \<open>The integer nearest to \<open>n / d\<close> (for \<open>0 < d\<close>), a tie going to the even one.\<close>

definition round_half_even :: "int \<Rightarrow> int \<Rightarrow> int" where
  "round_half_even n d =
     (let q = n div d; r = n mod d
      in if 2 * r < d then q
         else if d < 2 * r then q + 1
         else if even q then q else q + 1)"

text \<open>
  Rounding of the exact value \<open>m * 2 ^ e\<close> to 53 significant bits, to nearest, ties to
  even: the rounding every binary64 operation applies to its exact result.
\<close>

definition fl :: "int \<Rightarrow> int \<Rightarrow> dbl" where
  "fl m e =
     (let s = bitlen \<bar>m\<bar> - 53
      in if s \<le> 0 then Dbl m e
         else Dbl (round_half_even m (2 ^ nat s)) (e + s))"

definition float_of_int :: "int \<Rightarrow> dbl" where
  "float_of_int n = fl n 0"

definition fmul :: "dbl \<Rightarrow> dbl \<Rightarrow> dbl" where
  "fmul x y = fl (mantissa x * mantissa y) (exponent x + exponent y)"

text \<open>The literal \<^verbatim>\<open>0.45\<close>: the binary64 value \<^verbatim>\<open>0x1.ccccccccccccdp-2\<close>.\<close>

definition lit_0_45 :: dbl where
  "lit_0_45 = Dbl 8106479329266893 (- 54)"

text \<open>\<^verbatim>\<open>int * float\<close>: the integer is converted to \<^verbatim>\<open>float\<close>, then the floats are multiplied.\<close>

definition int_mul_float :: "int \<Rightarrow> dbl \<Rightarrow> dbl" where
  "int_mul_float n x = fmul (float_of_int n) x"

text \<open>The elements of a crop box are Python numbers, \<^verbatim>\<open>int\<close> or \<^verbatim>\<open>float\<close>.\<close>

datatype number = PyInt int | PyFloat dbl

fun num_val :: "number \<Rightarrow> rat" where
  "num_val (PyInt n) = of_int n"
| "num_val (PyFloat x) = dbl_val x"

text \<open>Python 3's \<^verbatim>\<open>round(x)\<close> with one argument: the nearest \<^verbatim>\<open>int\<close>, ties to even.\<close>

fun py_round :: "number \<Rightarrow> int" where
  "py_round (PyInt n) = n"
| "py_round (PyFloat x) =
     (if 0 \<le> exponent x then mantissa x * 2 ^ nat (exponent x)
      else round_half_even (mantissa x) (2 ^ nat (- exponent x)))"

text \<open>\<^verbatim>\<open>math.floor(x)\<close>, for comparison with the rounding the code applies.\<close>

fun py_floor :: "number \<Rightarrow> int" where
  "py_floor (PyInt n) = n"
| "py_floor (PyFloat x) =
     (if 0 \<le> exponent x then mantissa x * 2 ^ nat (exponent x)
      else mantissa x div 2 ^ nat (- exponent x))"


section \<open>Pillow images\<close>

text \<open>
  The exceptions the calls of the script raise; every one is a subclass of Python's
  \<^verbatim>\<open>Exception\<close>.  Each carries its message, which \<^verbatim>\<open>str(e)\<close> returns.
\<close>

datatype exn =
    FileNotFoundError string
  | PermissionError string
  | UnidentifiedImageError string
  | OSError string
  | ValueError string
  | DecompressionBombError string

fun str :: "exn \<Rightarrow> string" where
  "str (FileNotFoundError m) = m"
| "str (PermissionError m) = m"
| "str (UnidentifiedImageError m) = m"
| "str (OSError m) = m"
| "str (ValueError m) = m"
| "str (DecompressionBombError m) = m"

text \<open>
  \<^verbatim>\<open>repr\<close> of a string without quotes or backslashes, as it stands in the messages, and
  \<^verbatim>\<open>str\<close> of an integer.
\<close>

definition py_repr :: "string \<Rightarrow> string" where
  "py_repr s = [CHR 0x27] @ s @ [CHR 0x27]"

function str_nat :: "nat \<Rightarrow> string" where
  "str_nat n =
     (if n < 10 then [char_of (48 + n)]
      else str_nat (n div 10) @ [char_of (48 + n mod 10)])"
  by pat_completeness auto
termination
  by (relation "measure id") auto

declare str_nat.simps [simp del]

definition str_int :: "int \<Rightarrow> string" where
  "str_int i = (if i < 0 then ''-'' @ str_nat (nat (- i)) else str_nat (nat i))"

text \<open>
  A decoded raster: \<^verbatim>\<open>img.size\<close> is \<open>(width, height)\<close>; the pixel rows are read on
  demand by \<^verbatim>\<open>load()\<close>, which either raises or yields \<open>height\<close> rows of \<open>width\<close> pixels.
\<close>

record 'a image =
  img_size :: "int \<times> int"
  img_data :: "exn + 'a list list"

text \<open>
  A well-formed image of positive size.  Pillow keeps both dimensions in C \<^verbatim>\<open>int\<close>s,
  hence the bound.
\<close>

definition valid_image :: "'a image \<Rightarrow> bool" where
  "valid_image img =
     (case img_size img of (w, h) \<Rightarrow>
        0 < w \<and> w < 2 ^ 31 \<and> 0 < h \<and> h < 2 ^ 31 \<and>
        (case img_data img of
           Inl e \<Rightarrow> True
         | Inr rows \<Rightarrow> int (length rows) = h \<and> list_all (\<lambda>row. int (length row) = w) rows))"

text \<open>
  Pillow's guard against decompression bombs, \<^verbatim>\<open>Image._decompression_bomb_check(size)\<close>,
  run by \<^verbatim>\<open>Image.open\<close> on the size of the image and by \<^verbatim>\<open>Image.crop\<close> on the size of
  the box: above twice \<^verbatim>\<open>MAX_IMAGE_PIXELS\<close> it raises.  Between \<^verbatim>\<open>MAX_IMAGE_PIXELS\<close> and
  twice that it only issues a \<^verbatim>\<open>DecompressionBombWarning\<close> through the \<^verbatim>\<open>warnings\<close>
  module, which writes to the standard error stream and raises nothing; the standard
  error stream is not part of the machine modelled below.
\<close>

definition MAX_IMAGE_PIXELS :: int where
  "MAX_IMAGE_PIXELS = 1024 * 1024 * 1024 div 4 div 3"

definition decompression_bomb_check :: "int \<times> int \<Rightarrow> exn + unit" where
  "decompression_bomb_check sz =
     (let pixels = max 1 (fst sz) * max 1 (snd sz)
      in if 2 * MAX_IMAGE_PIXELS < pixels
         then Inl (DecompressionBombError
                (''Image size ('' @ str_int pixels @ '' pixels) exceeds limit of ''
                 @ str_int (2 * MAX_IMAGE_PIXELS)
                 @ '' pixels, could be decompression bomb DOS attack.''))
         else Inr ())"

text \<open>The pixel at column \<open>x\<close> of row \<open>y\<close>; outside the raster the fill value zero.\<close>

definition pixel_at :: "'a::zero list list \<Rightarrow> int \<Rightarrow> int \<Rightarrow> 'a" where
  "pixel_at rows x y =
     (if 0 \<le> y \<and> y < int (length rows) \<and> 0 \<le> x \<and> x < int (length (rows ! nat y))
      then rows ! nat y ! nat x else 0)"

text \<open>
  The core crop: a raster of size \<open>(sx1 - sx0, sy1 - sy0)\<close>, negative sizes clamped to 0,
  on which the source is pasted with its origin at \<open>(- sx0, - sy0)\<close>.
\<close>

definition ImagingCrop :: "'a::zero list list \<Rightarrow> int \<times> int \<times> int \<times> int \<Rightarrow> 'a list list" where
  "ImagingCrop rows box =
     (case box of (sx0, sy0, sx1, sy1) \<Rightarrow>
        let xsize = max 0 (sx1 - sx0); ysize = max 0 (sy1 - sy0)
        in map (\<lambda>y. map (\<lambda>x. pixel_at rows (int x + sx0) (int y + sy0)) [0..<nat xsize])
             [0..<nat ysize])"

text \<open>
  \<^verbatim>\<open>Image.crop(box)\<close>: the two order checks on the box as given, then \<^verbatim>\<open>load()\<close>, then
  \<^verbatim>\<open>_crop\<close>: the coordinates \<^verbatim>\<open>map(int, map(round, box))\<close>, the decompression bomb check
  on \<^verbatim>\<open>(abs(x1 - x0), abs(y1 - y0))\<close>, and the core crop.
\<close>

definition crop :: "'a::zero image \<Rightarrow> number \<times> number \<times> number \<times> number \<Rightarrow> exn + 'a image" where
  "crop img box =
     (case box of (left, upper, right, lower) \<Rightarrow>
        if num_val right < num_val left
        then Inl (ValueError (''Coordinate '' @ py_repr ''right'' @ '' is less than '' @ py_repr ''left''))
        else if num_val lower < num_val upper
        then Inl (ValueError (''Coordinate '' @ py_repr ''lower'' @ '' is less than '' @ py_repr ''upper''))
        else (case img_data img of
                Inl e \<Rightarrow> Inl e
              | Inr rows \<Rightarrow>
                  let x0 = py_round left; y0 = py_round upper;
                      x1 = py_round right; y1 = py_round lower
                  in (case decompression_bomb_check (\<bar>x1 - x0\<bar>, \<bar>y1 - y0\<bar>) of
                        Inl e \<Rightarrow> Inl e
                      | Inr u \<Rightarrow>
                          Inr \<lparr>img_size = (max 0 (x1 - x0), max 0 (y1 - y0)),
                               img_data = Inr (ImagingCrop rows (x0, y0, x1, y1))\<rparr>)))"

section \<open>Files and the console\<close>

type_synonym bytes = "8 word list"

text \<open>A file: its content, and whether it is protected against writing.\<close>

record disk_file =
  content :: bytes
  read_only :: bool

text \<open>
  The part of the machine the script touches: the files by path, the directories by
  path with a flag telling whether a file may be created in them, and the lines printed
  on the standard output so far.
\<close>

record world =
  files :: "string \<rightharpoonup> disk_file"
  dirs :: "string \<rightharpoonup> bool"
  stdout :: "string list"

definition print :: "string \<Rightarrow> world \<Rightarrow> world" where
  "print s w = w\<lparr>stdout := stdout w @ [s]\<rparr>"

definition dirname :: "string \<Rightarrow> string" where
  "dirname p = rev (drop 1 (dropWhile (\<lambda>c. c \<noteq> CHR ''/'') (rev p)))"

text \<open>
  \<^verbatim>\<open>Image.open(path)\<close>: the file is opened for reading and handed to the decoder of its
  format, and the size the decoder reports passes the decompression bomb check.  The
  decoder is Pillow's; the script is verified for any decoder.
\<close>

definition Image_open :: "(bytes \<Rightarrow> exn + 'a image) \<Rightarrow> string \<Rightarrow> world \<Rightarrow> exn + 'a image" where
  "Image_open decode path w =
     (case files w path of
        None \<Rightarrow> Inl (FileNotFoundError (''[Errno 2] No such file or directory: '' @ py_repr path))
      | Some f \<Rightarrow>
          (case decode (content f) of
             Inl e \<Rightarrow> Inl e
           | Inr im \<Rightarrow>
               (case decompression_bomb_check (img_size im) of
                  Inl e \<Rightarrow> Inl e
                | Inr u \<Rightarrow> Inr im)))"

text \<open>
  \<^verbatim>\<open>open(path, "w+b")\<close>, as far as it may fail: the directory must exist; a file that
  does not exist yet is created, which the directory must allow; a file that exists is
  truncated, which the file itself must allow, whatever the directory allows.
\<close>

definition open_w_plus_b :: "string \<Rightarrow> world \<Rightarrow> exn + unit" where
  "open_w_plus_b path w =
     (case dirs w (dirname path) of
        None \<Rightarrow> Inl (FileNotFoundError (''[Errno 2] No such file or directory: '' @ py_repr path))
      | Some writable \<Rightarrow>
          (case files w path of
             None \<Rightarrow>
               if writable then Inr ()
               else Inl (PermissionError (''[Errno 13] Permission denied: '' @ py_repr path))
           | Some f \<Rightarrow>
               if read_only f
               then Inl (PermissionError (''[Errno 13] Permission denied: '' @ py_repr path))
               else Inr ()))"

text \<open>The content of the file at the path replaced, the file created if there is none.\<close>

definition write_file :: "string \<Rightarrow> bytes \<Rightarrow> world \<Rightarrow> world" where
  "write_file path bs w =
     w\<lparr>files := (files w)(path \<mapsto>
          (case files w path of
             None \<Rightarrow> \<lparr>content = bs, read_only = False\<rparr>
           | Some f \<Rightarrow> f\<lparr>content := bs\<rparr>))\<rparr>"

text \<open>
  \<^verbatim>\<open>Image.save(path)\<close>: \<^verbatim>\<open>load()\<close>, then the destination is opened with mode \<^verbatim>\<open>w+b\<close>, then
  the encoder of the format writes into it.  When the encoder raises, having written
  some bytes, Pillow removes the file if this call created it and otherwise leaves it
  as written so far.  The encoder is Pillow's; the script is verified for any encoder.
\<close>

definition save ::
  "('a image \<Rightarrow> exn \<times> bytes + bytes) \<Rightarrow> 'a image \<Rightarrow> string \<Rightarrow> world \<Rightarrow> (exn + unit) \<times> world" where
  "save encode img path w =
     (case img_data img of
        Inl e \<Rightarrow> (Inl e, w)
      | Inr rows \<Rightarrow>
          let created = (files w path = None)
          in (case open_w_plus_b path w of
                Inl e \<Rightarrow> (Inl e, w)
              | Inr u \<Rightarrow>
                  (case encode img of
                     Inl (e, partial) \<Rightarrow>
                       (Inl e,
                        if created then w\<lparr>files := (files w)(path := None)\<rparr>
                        else write_file path partial w)
                   | Inr bs \<Rightarrow> (Inr (), write_file path bs w))))"

section \<open>The script \<^verbatim>\<open>crop_thumb.py\<close>\<close>

definition image_path :: string where
  "image_path = ''d:/GRADUS Project/GRADUS/frontend/public/assets/images/thumbs/why-gradus-thumbnail.png''"

definition output_path :: string where
  "output_path = ''d:/GRADUS Project/GRADUS/frontend/public/assets/images/thumbs/why-gradus-thumbnail-cropped.png''"

text \<open>Lines 16 to 19: the box handed to \<^verbatim>\<open>img.crop\<close>.\<close>

definition crop_box :: "int \<times> int \<Rightarrow> number \<times> number \<times> number \<times> number" where
  "crop_box sz =
     (case sz of (width, height) \<Rightarrow>
        let left = PyFloat (int_mul_float width lit_0_45);
            top = PyInt 0;
            right = PyInt width;
            bottom = PyInt height
        in (left, top, right, bottom))"

text \<open>Lines 8 to 24: open, crop and save, stopping at the first call that raises.\<close>

definition open_crop_save ::
  "(bytes \<Rightarrow> exn + 'a::zero image) \<Rightarrow> ('a image \<Rightarrow> exn \<times> bytes + bytes) \<Rightarrow> world \<Rightarrow> (exn + unit) \<times> world" where
  "open_crop_save decode encode w =
     (case Image_open decode image_path w of
        Inl e \<Rightarrow> (Inl e, w)
      | Inr img \<Rightarrow>
          (case crop img (crop_box (img_size img)) of
             Inl e \<Rightarrow> (Inl e, w)
           | Inr cropped_img \<Rightarrow> save encode cropped_img output_path w))"

text \<open>
  The module: the \<^verbatim>\<open>try\<close> body prints the success line after the three calls; the
  handler \<^verbatim>\<open>except Exception as e\<close> prints the error line.  Either way the module ends
  and the interpreter exits with status 0, the second component.
\<close>

definition crop_thumb ::
  "(bytes \<Rightarrow> exn + 'a::zero image) \<Rightarrow> ('a image \<Rightarrow> exn \<times> bytes + bytes) \<Rightarrow> world \<Rightarrow> world \<times> int" where
  "crop_thumb decode encode w =
     (case open_crop_save decode encode w of
        (Inr u, w') \<Rightarrow> (print (''Successfully cropped image to '' @ output_path) w', 0)
      | (Inl e, w') \<Rightarrow> (print (''Error cropping image: '' @ str e) w', 0))"

section \<open>Two image formats and concrete machines\<close>

text \<open>
  The concrete runs below need codecs and machines to run on.  The raw format is a
  width byte, a height byte and the pixels row by row, one byte each.
\<close>

definition raw_decode :: "bytes \<Rightarrow> exn + 8 word image" where
  "raw_decode bs =
     (case bs of
        w # h # px \<Rightarrow>
          if w = 0 \<or> h = 0 then Inl (UnidentifiedImageError ''cannot identify image file'')
          else Inr \<lparr>img_size = (uint w, uint h),
                    img_data =
                      (if length px = unat w * unat h
                       then Inr (map (\<lambda>i. take (unat w) (drop (i * unat w) px)) [0..<unat h])
                       else Inl (OSError ''image file is truncated''))\<rparr>
      | _ \<Rightarrow> Inl (UnidentifiedImageError ''cannot identify image file''))"

definition raw_encode :: "8 word image \<Rightarrow> exn \<times> bytes + bytes" where
  "raw_encode img =
     (case img_size img of (w, h) \<Rightarrow>
        if 255 < w \<or> 255 < h then Inl (ValueError ''image too large for the raw format'', [])
        else (case img_data img of
                Inl e \<Rightarrow> Inl (e, [])
              | Inr rows \<Rightarrow> Inr (word_of_int w # word_of_int h # concat rows)))"

text \<open>
  The flat format holds images of a single colour: two bytes of width, two bytes of
  height, and the colour.
\<close>

definition flat_decode :: "bytes \<Rightarrow> exn + 8 word image" where
  "flat_decode bs =
     (case bs of
        [a, b, c, d, v] \<Rightarrow>
          Inr \<lparr>img_size = (uint a * 256 + uint b, uint c * 256 + uint d),
               img_data = Inr (replicate (unat c * 256 + unat d)
                                 (replicate (unat a * 256 + unat b) v))\<rparr>
      | _ \<Rightarrow> Inl (UnidentifiedImageError ''cannot identify image file''))"

definition flat_encode :: "8 word image \<Rightarrow> exn \<times> bytes + bytes" where
  "flat_encode img =
     (case img_size img of (w, h) \<Rightarrow>
        (case img_data img of
           Inl e \<Rightarrow> Inl (e, [])
         | Inr rows \<Rightarrow>
             if rows \<noteq> [] \<and> hd rows \<noteq> [] \<and> w < 65536 \<and> h < 65536
                \<and> list_all (list_all (\<lambda>p. p = hd (hd rows))) rows
             then Inr [word_of_int (w div 256), word_of_int (w mod 256),
                       word_of_int (h div 256), word_of_int (h mod 256), hd (hd rows)]
             else Inl (ValueError ''not an image of a single colour'', [])))"

text \<open>
  A machine with the given content at the source path (or no file there), the given
  file at the destination path (or none), the given state of the destination directory
  (or no such directory), and nothing printed.
\<close>

definition machine :: "bytes option \<Rightarrow> disk_file option \<Rightarrow> bool option \<Rightarrow> world" where
  "machine src dst dir =
     \<lparr>files = (\<lambda>p. if p = image_path
                   then map_option (\<lambda>bs. \<lparr>content = bs, read_only = False\<rparr>) src
                   else if p = output_path then dst else None),
      dirs = (\<lambda>d. if d = dirname output_path then dir else None),
      stdout = []\<rparr>"

text \<open>A 4 by 2 image in the raw format.\<close>

definition raw_4x2 :: bytes where
  "raw_4x2 = [4, 2, 10, 20, 30, 40, 50, 60, 70, 80]"

section \<open>Rounding\<close>

lemma round_half_even_bounds:
  assumes "0 < d"
  shows "2 * (round_half_even n d * d) \<le> 2 * n + d"
    and "2 * n - d \<le> 2 * (round_half_even n d * d)"
proof -
  define q r k where "q = n div d" and "r = n mod d" and "k = round_half_even n d"
  have n: "n = q * d + r" by (simp add: q_def r_def)
  have r: "0 \<le> r" "r < d" using assms by (simp_all add: r_def)
  have rhe: "k = (if 2 * r < d then q else if d < 2 * r then q + 1 else if even q then q else q + 1)"
    by (simp add: k_def round_half_even_def Let_def q_def r_def)
  have "2 * (k * d) \<le> 2 * n + d \<and> 2 * n - d \<le> 2 * (k * d)"
    unfolding rhe n using r by (auto simp: algebra_simps)
  then show "2 * (round_half_even n d * d) \<le> 2 * n + d"
    "2 * n - d \<le> 2 * (round_half_even n d * d)"
    by (simp_all add: k_def)
qed

lemma frac_divide_of_int:
  fixes m d :: int
  assumes "0 < d"
  shows "\<lfloor>(of_int m :: rat) / of_int d\<rfloor> = m div d"
    and "frac ((of_int m :: rat) / of_int d) = of_int (m mod d) / of_int d"
proof -
  show fl: "\<lfloor>(of_int m :: rat) / of_int d\<rfloor> = m div d"
    by (simp add: floor_divide_of_int_eq)
  have "(of_int m :: rat) = of_int (m div d) * of_int d + of_int (m mod d)"
    by (metis of_int_add of_int_mult div_mult_mod_eq)
  then have "(of_int m :: rat) / of_int d = of_int (m div d) + of_int (m mod d) / of_int d"
    using assms by (simp add: field_simps)
  then show "frac ((of_int m :: rat) / of_int d) = of_int (m mod d) / of_int d"
    unfolding frac_def fl by simp
qed

text \<open>\<open>py_floor\<close> and \<open>py_round\<close> on a float, in terms of the value of the float.\<close>

lemma py_floor_val: "py_floor (PyFloat x) = \<lfloor>dbl_val x\<rfloor>"
  by (simp add: dbl_val_def frac_divide_of_int(1) del: of_int_mult of_int_power)

lemma py_round_val:
  "py_round (PyFloat x) =
     (if frac (dbl_val x) < 1 / 2 then \<lfloor>dbl_val x\<rfloor>
      else if 1 / 2 < frac (dbl_val x) then \<lfloor>dbl_val x\<rfloor> + 1
      else if even \<lfloor>dbl_val x\<rfloor> then \<lfloor>dbl_val x\<rfloor> else \<lfloor>dbl_val x\<rfloor> + 1)"
proof (cases "0 \<le> exponent x")
  case True
  then show ?thesis by (simp add: dbl_val_def del: of_int_mult of_int_power)
next
  case False
  define d :: int where "d = 2 ^ nat (- exponent x)"
  define m where "m = mantissa x"
  have d: "0 < d" by (simp add: d_def)
  have v: "dbl_val x = of_int m / of_int d" using False by (simp add: dbl_val_def d_def m_def)
  have r: "py_round (PyFloat x) = round_half_even m d" using False by (simp add: d_def m_def)
  have f: "frac (dbl_val x) = of_int (m mod d) / of_int d" "\<lfloor>dbl_val x\<rfloor> = m div d"
    unfolding v using frac_divide_of_int[OF d] by simp_all
  have lt: "frac (dbl_val x) < 1 / 2 \<longleftrightarrow> 2 * (m mod d) < d"
  proof -
    have "frac (dbl_val x) < 1 / 2 \<longleftrightarrow> (of_int (2 * (m mod d)) :: rat) < of_int d"
      unfolding f using d by (simp add: field_simps)
    then show ?thesis by (simp only: of_int_less_iff)
  qed
  have gt: "1 / 2 < frac (dbl_val x) \<longleftrightarrow> d < 2 * (m mod d)"
  proof -
    have "1 / 2 < frac (dbl_val x) \<longleftrightarrow> (of_int d :: rat) < of_int (2 * (m mod d))"
      unfolding f using d by (simp add: field_simps)
    then show ?thesis by (simp only: of_int_less_iff)
  qed
  show ?thesis unfolding r lt gt f(2) by (simp add: round_half_even_def Let_def)
qed

lemma py_round_near:
  "of_int (py_round (PyFloat x)) \<le> dbl_val x + 1 / 2"
  "dbl_val x - 1 / 2 \<le> of_int (py_round (PyFloat x))"
proof -
  define f k r where "f = frac (dbl_val x)" and "k = \<lfloor>dbl_val x\<rfloor>" and "r = py_round (PyFloat x)"
  have fl: "(of_int k :: rat) = dbl_val x - f" by (simp add: f_def k_def frac_def)
  have f: "0 \<le> f" "f < 1" by (simp_all add: f_def frac_lt_1)
  have "r = (if f < 1 / 2 then k else if 1 / 2 < f then k + 1 else if even k then k else k + 1)"
    unfolding r_def f_def k_def by (rule py_round_val)
  then have "r = k \<and> f \<le> 1 / 2 \<or> r = k + 1 \<and> 1 / 2 \<le> f"
    by (auto split: if_splits)
  then have "(of_int r :: rat) = dbl_val x - f \<and> f \<le> 1 / 2
      \<or> (of_int r :: rat) = dbl_val x - f + 1 \<and> 1 / 2 \<le> f"
    using fl by auto
  then have "of_int r \<le> dbl_val x + 1 / 2 \<and> dbl_val x - 1 / 2 \<le> of_int r"
    using f by auto
  then show "of_int (py_round (PyFloat x)) \<le> dbl_val x + 1 / 2"
    "dbl_val x - 1 / 2 \<le> of_int (py_round (PyFloat x))"
    unfolding r_def by blast+
qed

section \<open>The product \<^verbatim>\<open>width * 0.45\<close>\<close>

lemma float_of_int_small: "0 < n \<Longrightarrow> n < 2 ^ 53 \<Longrightarrow> float_of_int n = Dbl n 0"
proof -
  assume a: "0 < n" "n < 2 ^ 53"
  have "bitlen n \<le> 53" using a by (simp add: bitlen_le_iff_power)
  then show ?thesis using a by (simp add: float_of_int_def fl_def)
qed

text \<open>
  For a width below \<open>2 ^ 31\<close> the product drops at most 31 bits, so its mantissa times
  the dropped power of two is within half that power of the exact product.
\<close>

lemma left_cases:
  assumes W: "0 < W" "W < 2 ^ 31"
  shows "\<exists>s m. 0 \<le> s \<and> s \<le> 31 \<and> int_mul_float W lit_0_45 = Dbl m (s - 54) \<and>
     2 * (m * 2 ^ nat s) \<le> 2 * (W * 8106479329266893) + 2 ^ nat s \<and>
     2 * (W * 8106479329266893) - 2 ^ nat s \<le> 2 * (m * 2 ^ nat s)"
proof -
  let ?N = "W * 8106479329266893"
  have N: "0 < ?N" using W by simp
  have "?N < 2 ^ 31 * 2 ^ 53" using W by (intro mult_strict_mono) simp_all
  then have "?N < 2 ^ 84" by simp
  then have bl: "bitlen ?N \<le> 84" using N by (simp add: bitlen_le_iff_power)
  have eq: "int_mul_float W lit_0_45 = fl ?N (- 54)"
    using W by (simp add: int_mul_float_def fmul_def float_of_int_small lit_0_45_def)
  show ?thesis
  proof (cases "bitlen ?N - 53 \<le> 0")
    case True
    then have "fl ?N (- 54) = Dbl ?N (0 - 54)" using N by (simp add: fl_def)
    then show ?thesis using eq by (intro exI[of _ 0] exI[of _ ?N]) simp
  next
    case False
    define s where "s = bitlen ?N - 53"
    have s: "0 < s" "s \<le> 31" using False bl by (simp_all add: s_def)
    have "fl ?N (- 54) = Dbl (round_half_even ?N (2 ^ nat s)) (s - 54)"
      using False N by (simp add: fl_def s_def Let_def)
    moreover note round_half_even_bounds[of "2 ^ nat s" ?N]
    ultimately show ?thesis using eq s
      by (intro exI[of _ s] exI[of _ "round_half_even ?N (2 ^ nat s)"]) simp
  qed
qed

lemma left_val_bounds:
  assumes W: "0 < W" "W < 2 ^ 31"
  shows "of_int (2 * (W * 8106479329266893)) - 2 ^ 31 \<le> dbl_val (int_mul_float W lit_0_45) * 2 ^ 55"
    and "dbl_val (int_mul_float W lit_0_45) * 2 ^ 55 \<le> of_int (2 * (W * 8106479329266893)) + 2 ^ 31"
proof -
  from left_cases[OF W] obtain s m where s: "0 \<le> s" "s \<le> 31"
    and eq: "int_mul_float W lit_0_45 = Dbl m (s - 54)"
    and ub: "2 * (m * 2 ^ nat s) \<le> 2 * (W * 8106479329266893) + 2 ^ nat s"
    and lb: "2 * (W * 8106479329266893) - 2 ^ nat s \<le> 2 * (m * 2 ^ nat s)"
    by blast
  have p: "(2::int) ^ nat s \<le> 2 ^ 31" using s by (intro power_increasing) simp_all
  have "(2::rat) ^ 54 = 2 ^ (nat s + nat (54 - s))" using s by (simp add: nat_add_distrib[symmetric])
  then have split: "(2::rat) ^ 54 = 2 ^ nat s * 2 ^ nat (54 - s)" by (simp only: power_add)
  have "dbl_val (Dbl m (s - 54)) = of_int m / 2 ^ nat (54 - s)"
    using s by (simp add: dbl_val_def)
  then have "dbl_val (Dbl m (s - 54)) * 2 ^ 54 = of_int m * 2 ^ nat s"
    unfolding split by simp
  then have v: "dbl_val (int_mul_float W lit_0_45) * 2 ^ 55 = of_int (2 * (m * 2 ^ nat s))"
    unfolding eq by simp
  have "(of_int (2 * (m * 2 ^ nat s)) :: rat) \<le> of_int (2 * (W * 8106479329266893) + 2 ^ 31)"
    unfolding of_int_le_iff using ub p by linarith
  then show "dbl_val (int_mul_float W lit_0_45) * 2 ^ 55 \<le> of_int (2 * (W * 8106479329266893)) + 2 ^ 31"
    unfolding v by simp
  have "(of_int (2 * (W * 8106479329266893) - 2 ^ 31) :: rat) \<le> of_int (2 * (m * 2 ^ nat s))"
    unfolding of_int_le_iff using lb p by linarith
  then show "of_int (2 * (W * 8106479329266893)) - 2 ^ 31 \<le> dbl_val (int_mul_float W lit_0_45) * 2 ^ 55"
    unfolding v by simp
qed

lemma left_range:
  assumes W: "0 < W" "W < 2 ^ 31"
  shows "0 < dbl_val (int_mul_float W lit_0_45)"
    and "dbl_val (int_mul_float W lit_0_45) < of_int W - 1 / 2"
proof -
  let ?v = "dbl_val (int_mul_float W lit_0_45)"
  have W1: "(1::rat) \<le> of_int W" using W by simp
  have "0 < (of_int (2 * (W * 8106479329266893)) :: rat) - 2 ^ 31"
    using W1 by simp
  also have "\<dots> \<le> ?v * 2 ^ 55" by (rule left_val_bounds(1)[OF W])
  finally show "0 < ?v" by (simp add: zero_less_mult_iff)
  have "?v * 2 ^ 55 \<le> of_int (2 * (W * 8106479329266893)) + 2 ^ 31"
    by (rule left_val_bounds(2)[OF W])
  also have "\<dots> < (of_int W - 1 / 2) * 2 ^ 55" using W1 by simp
  finally show "?v < of_int W - 1 / 2" by simp
qed

lemma left_round_range:
  assumes W: "0 < W" "W < 2 ^ 31"
  shows "0 \<le> py_round (PyFloat (int_mul_float W lit_0_45))"
    and "py_round (PyFloat (int_mul_float W lit_0_45)) < W"
proof -
  let ?x = "int_mul_float W lit_0_45"
  have "(of_int (py_round (PyFloat ?x)) :: rat) < of_int W"
    using py_round_near(1)[of ?x] left_range(2)[OF W] by linarith
  then show "py_round (PyFloat ?x) < W" by (simp only: of_int_less_iff)
  have "(of_int (- 1) :: rat) < of_int (py_round (PyFloat ?x))"
    using py_round_near(2)[of ?x] left_range(1)[OF W] by simp
  then have "- 1 < py_round (PyFloat ?x)" by (simp only: of_int_less_iff)
  then show "0 \<le> py_round (PyFloat ?x)" by simp
qed

section \<open>The crop of a valid image\<close>

lemma ImagingCrop_drop:
  assumes H: "int (length rows) = H"
    and Wd: "list_all (\<lambda>row. int (length row) = W) rows"
    and x0: "0 \<le> x0" "x0 \<le> W"
  shows "ImagingCrop rows (x0, 0, W, H) = map (drop (nat x0)) rows"
proof (rule nth_equalityI)
  show len: "length (ImagingCrop rows (x0, 0, W, H)) = length (map (drop (nat x0)) rows)"
    using H by (auto simp: ImagingCrop_def)
  fix i assume "i < length (ImagingCrop rows (x0, 0, W, H))"
  then have i: "i < length rows" using len by simp
  then have li: "int (length (rows ! i)) = W"
    using Wd by (simp add: list_all_length)
  have iH: "i < nat H" using i H by auto
  have "map (\<lambda>x. pixel_at rows (int x + x0) (int i + 0)) [0..<nat (W - x0)] = drop (nat x0) (rows ! i)"
  proof (rule nth_equalityI)
    show "length (map (\<lambda>x. pixel_at rows (int x + x0) (int i + 0)) [0..<nat (W - x0)])
        = length (drop (nat x0) (rows ! i))"
      using li x0 by auto
    fix j assume "j < length (map (\<lambda>x. pixel_at rows (int x + x0) (int i + 0)) [0..<nat (W - x0)])"
    then have j: "j < nat (W - x0)" by simp
    then have jn: "nat x0 + j < length (rows ! i)" using li x0 by linarith
    have inr: "0 \<le> int j + x0" "int j + x0 < int (length (rows ! i))"
      using j li x0 by linarith+
    have idx: "nat (int j + x0) = nat x0 + j" using x0 by linarith
    have "pixel_at rows (int j + x0) (int i) = rows ! i ! (nat x0 + j)"
      unfolding pixel_at_def using i inr idx by simp
    then show "map (\<lambda>x. pixel_at rows (int x + x0) (int i + 0)) [0..<nat (W - x0)] ! j
        = drop (nat x0) (rows ! i) ! j"
      using j jn by simp
  qed
  then show "ImagingCrop rows (x0, 0, W, H) ! i = map (drop (nat x0)) rows ! i"
    using i iH H x0 by (simp add: ImagingCrop_def max_def)
qed

text \<open>An image that \<^verbatim>\<open>Image.open\<close> returned has passed the decompression bomb check.\<close>

lemma bomb_check_iff:
  "decompression_bomb_check sz = Inr () \<longleftrightarrow> max 1 (fst sz) * max 1 (snd sz) \<le> 2 * MAX_IMAGE_PIXELS"
  by (auto simp: decompression_bomb_check_def Let_def)

lemma Image_open_checked:
  assumes "Image_open decode path w = Inr img"
  shows "decompression_bomb_check (img_size img) = Inr ()"
  using assms
  by (auto simp: Image_open_def split: option.splits sum.splits)

text \<open>
  On a valid, loaded image that passes the check, the script's crop succeeds and drops
  the first \<open>x0\<close> pixels of every row, \<open>x0\<close> being the rounded product.
\<close>

lemma crop_valid:
  assumes v: "valid_image img" and d: "img_data img = Inr rows" and sz: "img_size img = (W, H)"
    and chk: "decompression_bomb_check (img_size img) = Inr ()"
  shows "crop img (crop_box (img_size img)) =
     Inr \<lparr>img_size = (W - py_round (PyFloat (int_mul_float W lit_0_45)), H),
          img_data = Inr (map (drop (nat (py_round (PyFloat (int_mul_float W lit_0_45))))) rows)\<rparr>"
proof -
  define left where "left = int_mul_float W lit_0_45"
  define x0 where "x0 = py_round (PyFloat left)"
  have W: "0 < W" "W < 2 ^ 31" and H: "0 < H" "int (length rows) = H"
    and rows: "list_all (\<lambda>row. int (length row) = W) rows"
    using v d sz by (simp_all add: valid_image_def)
  have x0: "0 \<le> x0" "x0 < W"
    unfolding x0_def left_def using left_round_range[OF W] by simp_all
  have lt: "dbl_val left < of_int W"
    unfolding left_def using left_range(2)[OF W] by linarith
  have box: "crop_box (img_size img) = (PyFloat left, PyInt 0, PyInt W, PyInt H)"
    by (simp add: crop_box_def sz left_def)
  have ic: "ImagingCrop rows (x0, 0, W, H) = map (drop (nat x0)) rows"
    using ImagingCrop_drop[OF H(2) rows x0(1)] x0(2) by simp
  have "W * H \<le> 2 * MAX_IMAGE_PIXELS"
    using chk W H unfolding bomb_check_iff sz by (simp add: max_def)
  moreover have "(W - x0) * H \<le> W * H"
    using x0 H by (intro mult_right_mono) simp_all
  ultimately have "(W - x0) * H \<le> 2 * MAX_IMAGE_PIXELS" by linarith
  moreover have "max 1 \<bar>W - x0\<bar> = W - x0" "max 1 \<bar>H - 0\<bar> = H"
    using x0 H by simp_all
  ultimately have "max 1 \<bar>W - x0\<bar> * max 1 \<bar>H - 0\<bar> \<le> 2 * MAX_IMAGE_PIXELS"
    by simp
  then have bc: "decompression_bomb_check (\<bar>W - x0\<bar>, \<bar>H - 0\<bar>) = Inr ()"
    unfolding bomb_check_iff by simp
  have "crop img (PyFloat left, PyInt 0, PyInt W, PyInt H) =
     Inr \<lparr>img_size = (W - x0, H), img_data = Inr (map (drop (nat x0)) rows)\<rparr>"
    unfolding crop_def using lt H(1) x0 d ic bc
    by (simp add: Let_def x0_def[symmetric] del: py_round.simps(2))
  then show ?thesis unfolding box x0_def left_def .
qed

lemma crop_valid_out:
  assumes v: "valid_image img" and d: "img_data img = Inr rows" and sz: "img_size img = (W, H)"
  shows "valid_image \<lparr>img_size = (W - py_round (PyFloat (int_mul_float W lit_0_45)), H),
          img_data = Inr (map (drop (nat (py_round (PyFloat (int_mul_float W lit_0_45))))) rows)\<rparr>"
proof -
  define x0 where "x0 = py_round (PyFloat (int_mul_float W lit_0_45))"
  have W: "0 < W" "W < 2 ^ 31" and H: "0 < H" "H < 2 ^ 31" "int (length rows) = H"
    and rows: "list_all (\<lambda>row. int (length row) = W) rows"
    using v d sz by (simp_all add: valid_image_def)
  have x0: "0 \<le> x0" "x0 < W"
    unfolding x0_def using left_round_range[OF W] by simp_all
  have "list_all (\<lambda>row. int (length row) = W - x0) (map (drop (nat x0)) rows)"
    using rows x0 by (auto simp: list_all_iff)
  then show ?thesis
    unfolding x0_def[symmetric] using W H x0 by (simp add: valid_image_def)
qed

lemma crop_checked:
  assumes "crop img box = Inr out"
  shows "decompression_bomb_check (img_size out) = Inr ()"
proof -
  obtain l u r b where box: "box = (l, u, r, b)" by (cases box) auto
  define a where "a = py_round r - py_round l"
  define c where "c = py_round b - py_round u"
  have chk: "decompression_bomb_check (\<bar>a\<bar>, \<bar>c\<bar>) = Inr ()" and sz: "img_size out = (max 0 a, max 0 c)"
    using assms unfolding box crop_def a_def c_def
    by (auto simp: Let_def split: if_splits sum.splits)
  have "max 1 (max 0 a) \<le> max 1 \<bar>a\<bar>" "max 1 (max 0 c) \<le> max 1 \<bar>c\<bar>" by auto
  then have "max 1 (max 0 a) * max 1 (max 0 c) \<le> max 1 \<bar>a\<bar> * max 1 \<bar>c\<bar>"
    by (intro mult_mono) auto
  then show ?thesis using chk unfolding bomb_check_iff sz by simp
qed

section \<open>Runs of the script\<close>

text \<open>
  What open, crop and save leave alone: the directories, the console, and every file
  but the destination; and what a second run, or a run after a print, does.
\<close>

lemma paths_distinct: "image_path \<noteq> output_path"
  by (simp add: image_path_def output_path_def)

lemma save_frame:
  assumes "save encode img path w = (r, w')"
  shows "dirs w' = dirs w" and "stdout w' = stdout w"
    and "p \<noteq> path \<Longrightarrow> files w' p = files w p"
  using assms
  by (auto simp: save_def write_file_def Let_def split: sum.splits option.splits if_splits prod.splits)

lemma open_crop_save_frame:
  assumes "open_crop_save decode encode w = (r, w')"
  shows "dirs w' = dirs w" and "stdout w' = stdout w"
    and "files w' image_path = files w image_path"
proof -
  have "w' = w \<or> (\<exists>c. save encode c output_path w = (r, w'))"
    using assms by (auto simp: open_crop_save_def split: sum.splits)
  then show "dirs w' = dirs w" "stdout w' = stdout w" "files w' image_path = files w image_path"
    using save_frame[of encode _ output_path w r w'] paths_distinct by auto
qed

lemma save_print:
  assumes "save encode img path w = (r, w')"
  shows "save encode img path (print m w) = (r, print m w')"
  using assms
  by (auto simp: save_def open_w_plus_b_def write_file_def print_def Let_def
      split: sum.splits option.splits if_splits prod.splits)

lemma open_crop_save_print:
  assumes "open_crop_save decode encode w = (r, w')"
  shows "open_crop_save decode encode (print m w) = (r, print m w')"
  using assms save_print[of encode _ output_path w r w' m]
  by (auto simp: open_crop_save_def Image_open_def print_def split: sum.splits option.splits)

lemma save_again:
  assumes "save encode img path w = (r, w')"
  shows "save encode img path w' = (r, w')"
  using assms
  by (auto simp: save_def open_w_plus_b_def write_file_def Let_def
      split: sum.splits option.splits if_splits prod.splits)

lemma open_crop_save_again:
  assumes "open_crop_save decode encode w = (r, w')"
  shows "open_crop_save decode encode w' = (r, w')"
proof -
  have f: "files w' image_path = files w image_path"
    using open_crop_save_frame(3)[OF assms] .
  show ?thesis
  proof (cases "Image_open decode image_path w")
    case (Inl e)
    then show ?thesis using assms by (simp add: open_crop_save_def)
  next
    case (Inr img)
    then have o: "Image_open decode image_path w' = Inr img"
      using f by (simp add: Image_open_def)
    show ?thesis
    proof (cases "crop img (crop_box (img_size img))")
      case (Inl e)
      then show ?thesis using assms Inr by (simp add: open_crop_save_def)
    next
      case c: (Inr cropped_img)
      then have "save encode cropped_img output_path w = (r, w')"
        using assms Inr by (simp add: open_crop_save_def)
      then have "save encode cropped_img output_path w' = (r, w')" by (rule save_again)
      then show ?thesis using o c by (simp add: open_crop_save_def)
    qed
  qed
qed

text \<open>
  The run hands the cropped image to \<^verbatim>\<open>save\<close>; when the destination can be opened and
  the encoder succeeds, the destination holds the encoded image and the success line
  is printed.
\<close>

lemma run_saves:
  assumes "Image_open decode image_path w = Inr img"
    and "crop img (crop_box (img_size img)) = Inr out"
  shows "open_crop_save decode encode w = save encode out output_path w"
  using assms by (simp add: open_crop_save_def)

lemma run_success:
  assumes "Image_open decode image_path w = Inr img"
    and "crop img (crop_box (img_size img)) = Inr out"
    and "img_data out = Inr rows'"
    and "open_w_plus_b output_path w = Inr ()" and "encode out = Inr bs"
  shows "crop_thumb decode encode w =
     (print (''Successfully cropped image to '' @ output_path) (write_file output_path bs w), 0)"
  using assms by (simp add: crop_thumb_def open_crop_save_def save_def)

lemma read_back:
  assumes "decode bs = Inr out" and "decompression_bomb_check (img_size out) = Inr ()"
  shows "Image_open decode output_path (print m (write_file output_path bs w)) = Inr out"
  using assms by (simp add: Image_open_def print_def write_file_def split: option.splits)

text \<open>
  What the run does with a valid, loaded image that \<^verbatim>\<open>Image.open\<close> returned: the crop
  succeeds, the cropped image is handed to \<^verbatim>\<open>save\<close>, and if the destination can be
  opened and the encoder succeeds the run writes the encoded image and prints the
  success line.
\<close>

lemma run_of_valid:
  assumes "Image_open decode image_path w = Inr img"
    and "valid_image img" and "img_data img = Inr rows" and "img_size img = (W, H)"
  shows "\<exists>out. crop img (crop_box (img_size img)) = Inr out
     \<and> img_size out = (W - py_round (PyFloat (int_mul_float W lit_0_45)), H)
     \<and> img_data out = Inr (map (drop (nat (py_round (PyFloat (int_mul_float W lit_0_45))))) rows)
     \<and> valid_image out
     \<and> open_crop_save decode encode w = save encode out output_path w
     \<and> (\<forall>bs. open_w_plus_b output_path w = Inr () \<and> encode out = Inr bs \<longrightarrow>
           crop_thumb decode encode w =
             (print (''Successfully cropped image to '' @ output_path)
                (write_file output_path bs w), 0))"
proof -
  define out where "out = \<lparr>img_size = (W - py_round (PyFloat (int_mul_float W lit_0_45)), H),
      img_data = Inr (map (drop (nat (py_round (PyFloat (int_mul_float W lit_0_45))))) rows)\<rparr>"
  have c: "crop img (crop_box (img_size img)) = Inr out"
    unfolding out_def by (rule crop_valid[OF assms(2-4) Image_open_checked[OF assms(1)]])
  have v: "valid_image out"
    unfolding out_def by (rule crop_valid_out[OF assms(2-4)])
  have d: "img_data out = Inr (map (drop (nat (py_round (PyFloat (int_mul_float W lit_0_45))))) rows)"
    and s: "img_size out = (W - py_round (PyFloat (int_mul_float W lit_0_45)), H)"
    by (simp_all add: out_def)
  have "open_crop_save decode encode w = save encode out output_path w"
    by (rule run_saves[OF assms(1) c])
  moreover have "crop_thumb decode encode w =
      (print (''Successfully cropped image to '' @ output_path) (write_file output_path bs w), 0)"
    if "open_w_plus_b output_path w = Inr ()" "encode out = Inr bs" for bs
    using run_success[of decode w img out _ encode bs] assms(1) c d that by blast
  ultimately show ?thesis using c v d s by blast
qed

text \<open>
  The sample file decodes, crops and saves as follows.
\<close>

lemma open_raw_4x2:
  "Image_open raw_decode image_path (machine (Some raw_4x2) dst dir)
     = Inr \<lparr>img_size = (4, 2), img_data = Inr [[10, 20, 30, 40], [50, 60, 70, 80]]\<rparr>"
proof -
  have "raw_decode raw_4x2 = Inr \<lparr>img_size = (4, 2), img_data = Inr [[10, 20, 30, 40], [50, 60, 70, 80]]\<rparr>"
    by code_simp
  moreover have "decompression_bomb_check (4, 2) = Inr ()" by code_simp
  ultimately show ?thesis by (simp add: Image_open_def machine_def)
qed

lemma open_w_machine:
  "open_w_plus_b output_path (machine src dst dir) =
     (case dir of
        None \<Rightarrow> Inl (FileNotFoundError (''[Errno 2] No such file or directory: '' @ py_repr output_path))
      | Some writable \<Rightarrow>
          (case dst of
             None \<Rightarrow> if writable then Inr ()
                      else Inl (PermissionError (''[Errno 13] Permission denied: '' @ py_repr output_path))
           | Some f \<Rightarrow> if read_only f
                      then Inl (PermissionError (''[Errno 13] Permission denied: '' @ py_repr output_path))
                      else Inr ()))"
  using paths_distinct
  by (auto simp: open_w_plus_b_def machine_def split: option.splits)

lemma crop_raw_4x2:
  "crop \<lparr>img_size = (4, 2), img_data = Inr [[10, 20, 30, 40], [50, 60, 70, 80 :: 8 word]]\<rparr>
      (crop_box (4, 2))
     = Inr \<lparr>img_size = (2, 2), img_data = Inr [[30, 40], [70, 80]]\<rparr>"
  by code_simp

lemma save_raw_2x2:
  "save raw_encode \<lparr>img_size = (2, 2), img_data = Inr [[30, 40], [70, 80]]\<rparr> output_path w =
     (case open_w_plus_b output_path w of
        Inl e \<Rightarrow> (Inl e, w)
      | Inr u \<Rightarrow> (Inr (), write_file output_path [2, 2, 30, 40, 70, 80] w))"
proof -
  have "raw_encode \<lparr>img_size = (2, 2), img_data = Inr [[30, 40], [70, 80]]\<rparr> = Inr [2, 2, 30, 40, 70, 80]"
    by code_simp
  then show ?thesis by (simp add: save_def split: sum.splits)
qed

section \<open>The size of the output\<close>

text \<open>
  Claim C1, as amended.  For every valid, loaded source image of width \<open>W\<close> and height
  \<open>H\<close> that \<^verbatim>\<open>Image.open\<close> returns for the source path, the crop of the script succeeds,
  and the cropped image is a valid image of height \<open>H\<close> and of width
  \<open>W - round(W * 0.45)\<close>: the binary64 product rounded to the nearest integer, ties to
  even, as \<^verbatim>\<open>Image.crop\<close> rounds its box.  The run hands that image to \<^verbatim>\<open>save\<close> for the
  output path; if the destination can be opened for writing and the encoder succeeds,
  the run writes the encoded image there and prints the success line.  The claim as
  stated has \<open>floor\<close> in place of \<open>round\<close>.
\<close>

theorem C1_output_size:
  assumes "Image_open decode image_path w = Inr img"
    and "valid_image img" and "img_data img = Inr rows" and "img_size img = (W, H)"
  shows "\<exists>out. crop img (crop_box (img_size img)) = Inr out
     \<and> img_size out = (W - py_round (PyFloat (int_mul_float W lit_0_45)), H)
     \<and> img_data out = Inr (map (drop (nat (py_round (PyFloat (int_mul_float W lit_0_45))))) rows)
     \<and> valid_image out
     \<and> open_crop_save decode encode w = save encode out output_path w
     \<and> (\<forall>bs. open_w_plus_b output_path w = Inr () \<and> encode out = Inr bs \<longrightarrow>
           crop_thumb decode encode w =
             (print (''Successfully cropped image to '' @ output_path)
                (write_file output_path bs w), 0))"
  by (rule run_of_valid[OF assms])

theorem C1_output_size_witness:
  "\<exists>out. crop \<lparr>img_size = (4, 2), img_data = Inr [[10, 20, 30, 40], [50, 60, 70, 80 :: 8 word]]\<rparr>
            (crop_box (4, 2)) = Inr out
     \<and> img_size out = (2, 2) \<and> img_data out = Inr [[30, 40], [70, 80]] \<and> valid_image out
     \<and> crop_thumb raw_decode raw_encode (machine (Some raw_4x2) None (Some True)) =
         (print (''Successfully cropped image to '' @ output_path)
            (write_file output_path [2, 2, 30, 40, 70, 80] (machine (Some raw_4x2) None (Some True))), 0)"
proof -
  let ?I = "\<lparr>img_size = (4, 2), img_data = Inr [[10, 20, 30, 40], [50, 60, 70, 80 :: 8 word]]\<rparr>"
  let ?M = "machine (Some raw_4x2) None (Some True)"
  have v: "valid_image ?I" by code_simp
  have r: "py_round (PyFloat (int_mul_float 4 lit_0_45)) = 2" by code_simp
  have ow: "open_w_plus_b output_path ?M = Inr ()" by (simp add: open_w_machine)
  from C1_output_size[OF open_raw_4x2 v, of "[[10, 20, 30, 40], [50, 60, 70, 80]]" 4 2 raw_encode None "Some True"]
  obtain out where c: "crop ?I (crop_box (4, 2)) = Inr out"
    and s: "img_size out = (2, 2)" and d: "img_data out = Inr [[30, 40], [70, 80]]"
    and vo: "valid_image out"
    and run: "\<forall>bs. open_w_plus_b output_path ?M = Inr () \<and> raw_encode out = Inr bs \<longrightarrow>
       crop_thumb raw_decode raw_encode ?M =
         (print (''Successfully cropped image to '' @ output_path) (write_file output_path bs ?M), 0)"
    unfolding r by auto
  have "raw_encode out = Inr [2, 2, 30, 40, 70, 80]"
    using s d by (simp add: raw_encode_def)
  with run ow c s d vo show ?thesis by blast
qed

text \<open>
  The claim as stated fails at width 2: \<^verbatim>\<open>2 * 0.45\<close> is \<^verbatim>\<open>0.9\<close>, which rounds to 1, so the
  image the run writes is 1 pixel wide, and \<open>2 - floor(0.9)\<close> is 2.
\<close>

theorem C1_counterexample:
  "valid_image \<lparr>img_size = (2, 1), img_data = Inr [[1, 2 :: 8 word]]\<rparr>
   \<and> crop \<lparr>img_size = (2, 1), img_data = Inr [[1, 2 :: 8 word]]\<rparr> (crop_box (2, 1))
       = Inr \<lparr>img_size = (1, 1), img_data = Inr [[2]]\<rparr>
   \<and> (1::int) \<noteq> 2 - py_floor (PyFloat (int_mul_float 2 lit_0_45))
   \<and> Image_open raw_decode image_path (machine (Some [2, 1, 1, 2]) None (Some True))
       = Inr \<lparr>img_size = (2, 1), img_data = Inr [[1, 2]]\<rparr>
   \<and> files (fst (crop_thumb raw_decode raw_encode (machine (Some [2, 1, 1, 2]) None (Some True))))
        output_path = Some \<lparr>content = [1, 1, 2], read_only = False\<rparr>
   \<and> raw_decode [1, 1, 2] = Inr \<lparr>img_size = (1, 1), img_data = Inr [[2]]\<rparr>"
  by code_simp

text \<open>
  Claim C2.  For a valid, loaded source image of width 1000 and height 500 that
  \<^verbatim>\<open>Image.open\<close> returns for the source path, the crop of the script succeeds with an
  image of width 550 and height 500, the rows of the source without their first 450
  pixels.  The run hands that image to \<^verbatim>\<open>save\<close> for the output path; if the destination
  can be opened for writing and the encoder succeeds, the run writes the encoded image
  there and prints the success line.
\<close>

theorem C2_1000_by_500:
  assumes "Image_open decode image_path w = Inr img"
    and "valid_image img" and "img_data img = Inr rows" and "img_size img = (1000, 500)"
  shows "\<exists>out. crop img (crop_box (img_size img)) = Inr out
     \<and> img_size out = (550, 500)
     \<and> img_data out = Inr (map (drop 450) rows)
     \<and> valid_image out
     \<and> open_crop_save decode encode w = save encode out output_path w
     \<and> (\<forall>bs. open_w_plus_b output_path w = Inr () \<and> encode out = Inr bs \<longrightarrow>
           crop_thumb decode encode w =
             (print (''Successfully cropped image to '' @ output_path)
                (write_file output_path bs w), 0))"
proof -
  have r: "py_round (PyFloat (int_mul_float 1000 lit_0_45)) = 450" by code_simp
  from run_of_valid[OF assms, of encode] show ?thesis
    unfolding r by simp
qed

theorem C2_1000_by_500_witness:
  "Image_open flat_decode image_path (machine (Some [3, 232, 1, 244, 0]) None (Some True))
     = Inr \<lparr>img_size = (1000, 500), img_data = Inr (replicate 500 (replicate 1000 0))\<rparr>
   \<and> crop_thumb flat_decode flat_encode (machine (Some [3, 232, 1, 244, 0]) None (Some True)) =
       (print (''Successfully cropped image to '' @ output_path)
          (write_file output_path [2, 38, 1, 244, 0]
             (machine (Some [3, 232, 1, 244, 0]) None (Some True))), 0)
   \<and> flat_decode [2, 38, 1, 244, 0]
     = Inr \<lparr>img_size = (550, 500), img_data = Inr (replicate 500 (replicate 550 0))\<rparr>"
proof -
  let ?I = "\<lparr>img_size = (1000, 500), img_data = Inr (replicate 500 (replicate 1000 (0 :: 8 word)))\<rparr>"
  let ?M = "machine (Some [3, 232, 1, 244, 0]) None (Some True)"
  have chk: "decompression_bomb_check (1000, 500) = Inr ()" by code_simp
  have o: "Image_open flat_decode image_path ?M = Inr ?I"
    using chk by (simp add: Image_open_def machine_def flat_decode_def)
  have v: "valid_image ?I" by (simp add: valid_image_def list_all_iff)
  have ow: "open_w_plus_b output_path ?M = Inr ()" by (simp add: open_w_machine)
  from C2_1000_by_500[OF o v, of "replicate 500 (replicate 1000 0)" flat_encode]
  obtain out where s: "img_size out = (550, 500)"
    and d: "img_data out = Inr (map (drop 450) (replicate 500 (replicate 1000 0)))"
    and run: "\<forall>bs. open_w_plus_b output_path ?M = Inr () \<and> flat_encode out = Inr bs \<longrightarrow>
       crop_thumb flat_decode flat_encode ?M =
         (print (''Successfully cropped image to '' @ output_path) (write_file output_path bs ?M), 0)"
    by auto
  have "flat_encode out = Inr [2, 38, 1, 244, 0]"
    using s d by (simp add: flat_encode_def list_all_iff)
  with run ow have "crop_thumb flat_decode flat_encode ?M =
       (print (''Successfully cropped image to '' @ output_path)
          (write_file output_path [2, 38, 1, 244, 0] ?M), 0)"
    by blast
  moreover have "flat_decode [2, 38, 1, 244, 0]
     = Inr \<lparr>img_size = (550, 500), img_data = Inr (replicate 500 (replicate 550 0))\<rparr>"
    by (simp add: flat_decode_def)
  ultimately show ?thesis using o by blast
qed

section \<open>The crop rectangle\<close>

text \<open>
  Claim C4.  For every decoded image of positive width \<open>W\<close> and height \<open>H\<close> the box the
  script computes is \<open>left = W * 0.45\<close> (the binary64 product), \<open>top = 0\<close>, \<open>right = W\<close>,
  \<open>bottom = H\<close>, and \<open>0 \<le> left < right \<le> W\<close> and \<open>0 \<le> top < bottom \<le> H\<close>.
\<close>

theorem C4_crop_rectangle:
  assumes "valid_image img" and "img_size img = (W, H)"
  shows "case crop_box (img_size img) of (l, t, r, b) \<Rightarrow>
      l = PyFloat (int_mul_float W lit_0_45) \<and> t = PyInt 0
    \<and> r = PyInt W \<and> b = PyInt H
    \<and> 0 \<le> num_val l \<and> num_val l < num_val r \<and> num_val r \<le> of_int W
    \<and> 0 \<le> num_val t \<and> num_val t < num_val b \<and> num_val b \<le> of_int H"
proof -
  have W: "0 < W" "W < 2 ^ 31" and H: "0 < H"
    using assms by (simp_all add: valid_image_def)
  have "0 < dbl_val (int_mul_float W lit_0_45)" "dbl_val (int_mul_float W lit_0_45) < of_int W"
    using left_range[OF W] by linarith+
  then show ?thesis using H by (simp add: crop_box_def assms(2))
qed

theorem C4_crop_rectangle_witness:
  "case crop_box (4, 2) of (l, t, r, b) \<Rightarrow>
      l = PyFloat (Dbl 8106479329266893 (- 52)) \<and> t = PyInt 0
    \<and> r = PyInt 4 \<and> b = PyInt 2
    \<and> 0 \<le> num_val l \<and> num_val l < num_val r \<and> num_val r \<le> 4
    \<and> 0 \<le> num_val t \<and> num_val t < num_val b \<and> num_val b \<le> 2"
proof -
  let ?I = "\<lparr>img_size = (4, 2), img_data = Inr [[10, 20, 30, 40], [50, 60, 70, 80 :: 8 word]]\<rparr>"
  have v: "valid_image ?I" by code_simp
  have l: "int_mul_float 4 lit_0_45 = Dbl 8106479329266893 (- 52)" by code_simp
  from C4_crop_rectangle[OF v, of 4 2] show ?thesis unfolding l by simp
qed

section \<open>The pixels of the output\<close>

text \<open>
  Claim C3, as amended.  For every valid, loaded source image that \<^verbatim>\<open>Image.open\<close> returns
  for the source path, the rows of the cropped image are the rows of the source without
  their first \<open>x0\<close> pixels, \<open>x0\<close> being \<open>round(W * 0.45)\<close>, ties to even: column \<open>c\<close> of the
  output is column \<open>x0 + c\<close> of the source, for \<open>0 \<le> c < W - x0\<close> and every row, and no
  column left of \<open>x0\<close> appears in the output.  The run hands that image to \<^verbatim>\<open>save\<close> for
  the output path, and when the codec is lossless on it (the decoder returns the image
  from the bytes the encoder made of it) and the destination can be opened for writing,
  opening the output path after the run yields exactly that image.  The claim as stated
  has \<open>floor\<close> in place of \<open>round\<close>.
\<close>

theorem C3_pixels:
  assumes "Image_open decode image_path w = Inr img"
    and "valid_image img" and "img_data img = Inr rows" and "img_size img = (W, H)"
  shows "let x0 = py_round (PyFloat (int_mul_float W lit_0_45)) in
     \<exists>out rows'. crop img (crop_box (img_size img)) = Inr out
       \<and> out = \<lparr>img_size = (W - x0, H), img_data = Inr rows'\<rparr>
       \<and> rows' = map (drop (nat x0)) rows
       \<and> (\<forall>c r. 0 \<le> r \<and> r < H \<and> 0 \<le> c \<and> c < W - x0
             \<longrightarrow> pixel_at rows' c r = pixel_at rows (x0 + c) r)
       \<and> open_crop_save decode encode w = save encode out output_path w
       \<and> (\<forall>bs. open_w_plus_b output_path w = Inr () \<and> encode out = Inr bs
                \<and> decode bs = Inr out \<longrightarrow>
             Image_open decode output_path (fst (crop_thumb decode encode w)) = Inr out)"
proof -
  define x0 where "x0 = py_round (PyFloat (int_mul_float W lit_0_45))"
  define out :: "'a image" where "out = \<lparr>img_size = (W - x0, H), img_data = Inr (map (drop (nat x0)) rows)\<rparr>"
  have W: "0 < W" "W < 2 ^ 31" and H: "int (length rows) = H"
    and rows: "list_all (\<lambda>row. int (length row) = W) rows"
    using assms by (simp_all add: valid_image_def)
  have x0: "0 \<le> x0" "x0 < W"
    unfolding x0_def using left_round_range[OF W] by simp_all
  have px: "pixel_at (map (drop (nat x0)) rows) c r = pixel_at rows (x0 + c) r"
    if "0 \<le> r" "r < H" "0 \<le> c" "c < W - x0" for c r
  proof -
    have r: "nat r < length rows" using that H by linarith
    then have len: "int (length (rows ! nat r)) = W"
      using rows by (simp add: list_all_length)
    have c: "nat x0 + nat c < length (rows ! nat r)" using that x0 len by linarith
    have idx: "nat (x0 + c) = nat x0 + nat c" using that x0 by linarith
    have "pixel_at (map (drop (nat x0)) rows) c r = rows ! nat r ! (nat x0 + nat c)"
      unfolding pixel_at_def using that r c H len x0 by simp
    moreover have "pixel_at rows (x0 + c) r = rows ! nat r ! (nat x0 + nat c)"
      unfolding pixel_at_def using that r H len x0 idx by simp
    ultimately show ?thesis by simp
  qed
  have c: "crop img (crop_box (img_size img)) = Inr out"
    unfolding out_def x0_def by (rule crop_valid[OF assms(2-4) Image_open_checked[OF assms(1)]])
  have sv: "open_crop_save decode encode w = save encode out output_path w"
    by (rule run_saves[OF assms(1) c])
  have rb: "Image_open decode output_path (fst (crop_thumb decode encode w)) = Inr out"
    if "open_w_plus_b output_path w = Inr ()" "encode out = Inr bs" "decode bs = Inr out" for bs
  proof -
    have "crop_thumb decode encode w =
        (print (''Successfully cropped image to '' @ output_path) (write_file output_path bs w), 0)"
      using run_success[of decode w img out "map (drop (nat x0)) rows" encode bs] assms(1) c that
      by (simp add: out_def)
    then show ?thesis
      using read_back[of decode bs out _ w] that(3) crop_checked[OF c] by simp
  qed
  show ?thesis
    unfolding Let_def x0_def[symmetric]
    using c sv px rb by (auto simp: out_def)
qed

theorem C3_pixels_witness:
  "\<exists>rows'. crop \<lparr>img_size = (4, 2), img_data = Inr [[10, 20, 30, 40], [50, 60, 70, 80 :: 8 word]]\<rparr>
              (crop_box (4, 2)) = Inr \<lparr>img_size = (2, 2), img_data = Inr rows'\<rparr>
       \<and> rows' = [[30, 40], [70, 80]]
       \<and> pixel_at rows' 1 1 = pixel_at [[10, 20, 30, 40], [50, 60, 70, 80]] 3 1
       \<and> Image_open raw_decode output_path
           (fst (crop_thumb raw_decode raw_encode (machine (Some raw_4x2) None (Some True))))
         = Inr \<lparr>img_size = (2, 2), img_data = Inr rows'\<rparr>"
proof -
  let ?I = "\<lparr>img_size = (4, 2), img_data = Inr [[10, 20, 30, 40], [50, 60, 70, 80 :: 8 word]]\<rparr>"
  let ?O = "\<lparr>img_size = (2, 2), img_data = Inr [[30, 40], [70, 80 :: 8 word]]\<rparr>"
  let ?M = "machine (Some raw_4x2) None (Some True)"
  have v: "valid_image ?I" by code_simp
  have r: "py_round (PyFloat (int_mul_float 4 lit_0_45)) = 2" by code_simp
  have ow: "open_w_plus_b output_path ?M = Inr ()" by (simp add: open_w_machine)
  have enc: "raw_encode ?O = Inr [2, 2, 30, 40, 70, 80]" by code_simp
  have dec: "raw_decode [2, 2, 30, 40, 70, 80] = Inr ?O" by code_simp
  from C3_pixels[OF open_raw_4x2 v, of "[[10, 20, 30, 40], [50, 60, 70, 80]]" 4 2 raw_encode None "Some True"]
    ow enc dec
  show ?thesis unfolding r Let_def by auto
qed

text \<open>
  The claim as stated fails at width 6: \<^verbatim>\<open>6 * 0.45\<close> is \<^verbatim>\<open>2.7\<close>, whose floor is 2, and
  column 0 of the image the run writes is column 3 of the source, not column 2.
\<close>

theorem C3_counterexample:
  "valid_image \<lparr>img_size = (6, 1), img_data = Inr [[10, 20, 30, 40, 50, 60 :: 8 word]]\<rparr>
   \<and> crop \<lparr>img_size = (6, 1), img_data = Inr [[10, 20, 30, 40, 50, 60 :: 8 word]]\<rparr> (crop_box (6, 1))
       = Inr \<lparr>img_size = (3, 1), img_data = Inr [[40, 50, 60]]\<rparr>
   \<and> py_floor (PyFloat (int_mul_float 6 lit_0_45)) = 2
   \<and> pixel_at [[40, 50, 60 :: 8 word]] 0 0
       \<noteq> pixel_at [[10, 20, 30, 40, 50, 60]] (py_floor (PyFloat (int_mul_float 6 lit_0_45)) + 0) 0
   \<and> Image_open raw_decode image_path (machine (Some [6, 1, 10, 20, 30, 40, 50, 60]) None (Some True))
       = Inr \<lparr>img_size = (6, 1), img_data = Inr [[10, 20, 30, 40, 50, 60]]\<rparr>
   \<and> files (fst (crop_thumb raw_decode raw_encode
        (machine (Some [6, 1, 10, 20, 30, 40, 50, 60]) None (Some True)))) output_path
       = Some \<lparr>content = [3, 1, 40, 50, 60], read_only = False\<rparr>
   \<and> raw_decode [3, 1, 40, 50, 60] = Inr \<lparr>img_size = (3, 1), img_data = Inr [[40, 50, 60]]\<rparr>"
  by code_simp

section \<open>Rounding against flooring\<close>

text \<open>
  Claim C10, as amended.  The left bound is the binary64 product \<open>W * 0.45\<close>, passed as
  a float to the crop, which rounds it to the nearest integer, ties to even.  For every
  valid, loaded image that \<^verbatim>\<open>Image.open\<close> returns for the source path and whose product
  has a fractional part of at least one half, the case of a fractional part of exactly
  one half above an even integer excepted, the image the run hands to \<^verbatim>\<open>save\<close>, and
  writes if the destination can be opened and the encoder succeeds, has width
  \<open>W - round(W * 0.45)\<close>; the rounded product is one more than the floored one, and so
  that width is not \<open>W - floor(W * 0.45)\<close>.
\<close>

theorem C10_round_not_floor:
  assumes "Image_open decode image_path w = Inr img"
    and "valid_image img" and "img_data img = Inr rows" and "img_size img = (W, H)"
    and "1 / 2 \<le> frac (dbl_val (int_mul_float W lit_0_45))"
    and "\<not> (frac (dbl_val (int_mul_float W lit_0_45)) = 1 / 2
            \<and> even (py_floor (PyFloat (int_mul_float W lit_0_45))))"
  shows "\<exists>l t r b out. crop_box (img_size img) = (PyFloat l, t, r, b)
     \<and> l = int_mul_float W lit_0_45
     \<and> crop img (crop_box (img_size img)) = Inr out
     \<and> img_size out = (W - py_round (PyFloat l), H)
     \<and> img_data out = Inr (map (drop (nat (py_round (PyFloat l)))) rows)
     \<and> open_crop_save decode encode w = save encode out output_path w
     \<and> (\<forall>bs. open_w_plus_b output_path w = Inr () \<and> encode out = Inr bs \<longrightarrow>
           crop_thumb decode encode w =
             (print (''Successfully cropped image to '' @ output_path)
                (write_file output_path bs w), 0))
     \<and> py_round (PyFloat l) = py_floor (PyFloat l) + 1
     \<and> W - py_round (PyFloat l) \<noteq> W - py_floor (PyFloat l)"
proof -
  define l where "l = int_mul_float W lit_0_45"
  define k where "k = \<lfloor>dbl_val l\<rfloor>"
  define f where "f = frac (dbl_val l)"
  have fl: "py_floor (PyFloat l) = k" unfolding k_def by (rule py_floor_val)
  have rd: "py_round (PyFloat l) = (if f < 1 / 2 then k else if 1 / 2 < f then k + 1
      else if even k then k else k + 1)"
    unfolding k_def f_def by (rule py_round_val)
  have "1 / 2 \<le> f" "\<not> (f = 1 / 2 \<and> even k)"
    using assms(5,6) unfolding l_def[symmetric] fl f_def by blast+
  then have "py_round (PyFloat l) = k + 1" unfolding rd by auto
  then have rf: "py_round (PyFloat l) = py_floor (PyFloat l) + 1" unfolding fl .
  have box: "crop_box (img_size img) = (PyFloat l, PyInt 0, PyInt W, PyInt H)"
    by (simp add: crop_box_def assms(4) l_def)
  from run_of_valid[OF assms(1-4), of encode]
  obtain out where "crop img (crop_box (img_size img)) = Inr out"
    "img_size out = (W - py_round (PyFloat l), H)"
    "img_data out = Inr (map (drop (nat (py_round (PyFloat l)))) rows)"
    "open_crop_save decode encode w = save encode out output_path w"
    "\<forall>bs. open_w_plus_b output_path w = Inr () \<and> encode out = Inr bs \<longrightarrow>
           crop_thumb decode encode w =
             (print (''Successfully cropped image to '' @ output_path)
                (write_file output_path bs w), 0)"
    unfolding l_def by blast
  then show ?thesis using box rf by (intro exI[of _ l] exI[of _ "PyInt 0"] exI[of _ "PyInt W"]
        exI[of _ "PyInt H"] exI[of _ out]) (simp add: l_def)
qed

theorem C10_round_not_floor_witness:
  "Image_open raw_decode image_path (machine (Some (30 # 1 # replicate 30 7)) None (Some True))
     = Inr \<lparr>img_size = (30, 1), img_data = Inr [replicate 30 7]\<rparr>
   \<and> 1 / 2 \<le> frac (dbl_val (int_mul_float 30 lit_0_45))
   \<and> py_floor (PyFloat (int_mul_float 30 lit_0_45)) = 13
   \<and> crop_thumb raw_decode raw_encode (machine (Some (30 # 1 # replicate 30 7)) None (Some True)) =
       (print (''Successfully cropped image to '' @ output_path)
          (write_file output_path (16 # 1 # replicate 16 7)
             (machine (Some (30 # 1 # replicate 30 7)) None (Some True))), 0)"
proof -
  let ?I = "\<lparr>img_size = (30, 1), img_data = Inr [replicate 30 (7 :: 8 word)]\<rparr>"
  let ?M = "machine (Some (30 # 1 # replicate 30 7)) None (Some True)"
  have chk: "decompression_bomb_check (30, 1) = Inr ()" by code_simp
  have o: "Image_open raw_decode image_path ?M = Inr ?I"
    using chk by (simp add: Image_open_def machine_def raw_decode_def)
  have v: "valid_image ?I" by (simp add: valid_image_def)
  have l: "int_mul_float 30 lit_0_45 = Dbl 7599824371187712 (- 49)" by code_simp
  have f: "frac (dbl_val (Dbl 7599824371187712 (- 49))) = 1 / 2" by code_simp
  have fl: "py_floor (PyFloat (Dbl 7599824371187712 (- 49))) = 13" by code_simp
  have rd: "py_round (PyFloat (Dbl 7599824371187712 (- 49))) = 14" by code_simp
  have ow: "open_w_plus_b output_path ?M = Inr ()" by (simp add: open_w_machine)
  from C10_round_not_floor[OF o v, of "[replicate 30 7]" 30 1 raw_encode] f fl rd
  obtain out where s: "img_size out = (16, 1)"
    and d: "img_data out = Inr [replicate 16 7]"
    and run: "\<forall>bs. open_w_plus_b output_path ?M = Inr () \<and> raw_encode out = Inr bs \<longrightarrow>
       crop_thumb raw_decode raw_encode ?M =
         (print (''Successfully cropped image to '' @ output_path) (write_file output_path bs ?M), 0)"
    unfolding l by (auto simp del: py_round.simps py_floor.simps)
  have "raw_encode out = Inr (16 # 1 # replicate 16 7)"
    using s d by (simp add: raw_encode_def)
  with run ow have "crop_thumb raw_decode raw_encode ?M =
       (print (''Successfully cropped image to '' @ output_path)
          (write_file output_path (16 # 1 # replicate 16 7) ?M), 0)"
    by blast
  then show ?thesis using o f fl unfolding l by simp
qed

text \<open>
  The claim as stated fails at width 10: \<^verbatim>\<open>10 * 0.45\<close> is \<^verbatim>\<open>4.5\<close>, with fractional part
  one half, and it rounds to the even 4, which is its floor: the image the run writes
  is 6 wide, which is \<open>10 - floor(4.5)\<close>.
\<close>

theorem C10_counterexample:
  "valid_image \<lparr>img_size = (10, 1), img_data = Inr [[0, 1, 2, 3, 4, 5, 6, 7, 8, 9 :: 8 word]]\<rparr>
   \<and> 1 / 2 \<le> frac (dbl_val (int_mul_float 10 lit_0_45))
   \<and> crop \<lparr>img_size = (10, 1), img_data = Inr [[0, 1, 2, 3, 4, 5, 6, 7, 8, 9 :: 8 word]]\<rparr> (crop_box (10, 1))
       = Inr \<lparr>img_size = (6, 1), img_data = Inr [[4, 5, 6, 7, 8, 9]]\<rparr>
   \<and> 10 - py_floor (PyFloat (int_mul_float 10 lit_0_45)) = 6
   \<and> Image_open raw_decode image_path
        (machine (Some [10, 1, 0, 1, 2, 3, 4, 5, 6, 7, 8, 9]) None (Some True))
       = Inr \<lparr>img_size = (10, 1), img_data = Inr [[0, 1, 2, 3, 4, 5, 6, 7, 8, 9]]\<rparr>
   \<and> files (fst (crop_thumb raw_decode raw_encode
        (machine (Some [10, 1, 0, 1, 2, 3, 4, 5, 6, 7, 8, 9]) None (Some True)))) output_path
       = Some \<lparr>content = [6, 1, 4, 5, 6, 7, 8, 9], read_only = False\<rparr>
   \<and> raw_decode [6, 1, 4, 5, 6, 7, 8, 9]
       = Inr \<lparr>img_size = (6, 1), img_data = Inr [[4, 5, 6, 7, 8, 9]]\<rparr>"
  by code_simp

section \<open>Failures, messages and the files\<close>

text \<open>
  Claim C5.  Every run ends with exit status 0.  A failure raised by the open, by the
  crop or by the save is caught: the run prints the one line
  \<^verbatim>\<open>Error cropping image: \<close> followed by the text of the exception, whatever its
  kind, and ends normally.
\<close>

theorem C5_failures_caught:
  "snd (crop_thumb decode encode w) = 0
   \<and> (\<forall>e. Image_open decode image_path w = Inl e
        \<longrightarrow> crop_thumb decode encode w = (print (''Error cropping image: '' @ str e) w, 0))
   \<and> (\<forall>img e. Image_open decode image_path w = Inr img
          \<and> crop img (crop_box (img_size img)) = Inl e
        \<longrightarrow> crop_thumb decode encode w = (print (''Error cropping image: '' @ str e) w, 0))
   \<and> (\<forall>img cropped_img e w'. Image_open decode image_path w = Inr img
          \<and> crop img (crop_box (img_size img)) = Inr cropped_img
          \<and> save encode cropped_img output_path w = (Inl e, w')
        \<longrightarrow> crop_thumb decode encode w = (print (''Error cropping image: '' @ str e) w', 0))"
  by (auto simp: crop_thumb_def open_crop_save_def split: sum.splits prod.splits)

theorem C5_failures_caught_witness:
  "crop_thumb raw_decode raw_encode (machine None None (Some True))
     = (print (''Error cropping image: [Errno 2] No such file or directory: '' @ py_repr image_path)
          (machine None None (Some True)), 0)
   \<and> crop_thumb raw_decode raw_encode (machine (Some [4, 2, 10]) None (Some True))
     = (print ''Error cropping image: image file is truncated''
          (machine (Some [4, 2, 10]) None (Some True)), 0)
   \<and> crop_thumb raw_decode raw_encode (machine (Some raw_4x2) None (Some False))
     = (print (''Error cropping image: [Errno 13] Permission denied: '' @ py_repr output_path)
          (machine (Some raw_4x2) None (Some False)), 0)"
proof -
  have a: "Image_open raw_decode image_path (machine None None (Some True))
      = Inl (FileNotFoundError (''[Errno 2] No such file or directory: '' @ py_repr image_path))"
    by (simp add: Image_open_def machine_def)
  have chk: "decompression_bomb_check (4, 2) = Inr ()" by code_simp
  have b1: "Image_open raw_decode image_path (machine (Some [4, 2, 10]) None (Some True))
      = Inr \<lparr>img_size = (4, 2), img_data = Inl (OSError ''image file is truncated'')\<rparr>"
    using chk by (simp add: Image_open_def machine_def raw_decode_def)
  have b2: "crop \<lparr>img_size = (4, 2), img_data = Inl (OSError ''image file is truncated'') :: exn + 8 word list list\<rparr>
      (crop_box (4, 2)) = Inl (OSError ''image file is truncated'')"
    by code_simp
  have c: "save raw_encode \<lparr>img_size = (2, 2), img_data = Inr [[30, 40], [70, 80]]\<rparr> output_path
      (machine (Some raw_4x2) None (Some False))
      = (Inl (PermissionError (''[Errno 13] Permission denied: '' @ py_repr output_path)),
         machine (Some raw_4x2) None (Some False))"
    by (simp add: save_raw_2x2 open_w_machine)
  from C5_failures_caught[of raw_decode raw_encode "machine None None (Some True)"] a
  have 1: "crop_thumb raw_decode raw_encode (machine None None (Some True))
     = (print (''Error cropping image: [Errno 2] No such file or directory: '' @ py_repr image_path)
          (machine None None (Some True)), 0)"
    by simp
  from C5_failures_caught[of raw_decode raw_encode "machine (Some [4, 2, 10]) None (Some True)"] b1 b2
  have 2: "crop_thumb raw_decode raw_encode (machine (Some [4, 2, 10]) None (Some True))
     = (print ''Error cropping image: image file is truncated''
          (machine (Some [4, 2, 10]) None (Some True)), 0)"
    by simp
  from C5_failures_caught[of raw_decode raw_encode "machine (Some raw_4x2) None (Some False)"]
    open_raw_4x2[of None "Some False"] crop_raw_4x2 c
  have 3: "crop_thumb raw_decode raw_encode (machine (Some raw_4x2) None (Some False))
     = (print (''Error cropping image: [Errno 13] Permission denied: '' @ py_repr output_path)
          (machine (Some raw_4x2) None (Some False)), 0)"
    by simp
  from 1 2 3 show ?thesis by blast
qed

text \<open>
  Claim C6.  If there is no file at the source path, the run prints the error line for
  the missing file and leaves the files as they were: no file is produced at the
  destination path.
\<close>

theorem C6_missing_source:
  assumes "files w image_path = None"
  shows "crop_thumb decode encode w =
      (print (''Error cropping image: [Errno 2] No such file or directory: '' @ py_repr image_path) w, 0)
    \<and> files (fst (crop_thumb decode encode w)) = files w
    \<and> files (fst (crop_thumb decode encode w)) output_path = files w output_path"
  using assms
  by (simp add: crop_thumb_def open_crop_save_def Image_open_def print_def)

theorem C6_missing_source_witness:
  "files (machine None None (Some True)) image_path = None
   \<and> stdout (fst (crop_thumb raw_decode raw_encode (machine None None (Some True))))
       = [''Error cropping image: [Errno 2] No such file or directory: '' @ py_repr image_path]
   \<and> files (fst (crop_thumb raw_decode raw_encode (machine None None (Some True)))) output_path = None"
proof -
  have h: "files (machine None None (Some True)) image_path = None"
    by (simp add: machine_def)
  from C6_missing_source[OF h, of raw_decode raw_encode] h
  show ?thesis using paths_distinct by (simp add: print_def machine_def)
qed




text \<open>
  Claim C8.  A second run, on the machine the first run left, prints the line the first
  run printed and changes nothing else: the files, the destination among them, and the
  directories are the same after the second run as after the first.
\<close>

theorem C8_idempotent:
  "crop_thumb decode encode (fst (crop_thumb decode encode w))
     = (print (last (stdout (fst (crop_thumb decode encode w)))) (fst (crop_thumb decode encode w)), 0)
   \<and> files (fst (crop_thumb decode encode (fst (crop_thumb decode encode w))))
       = files (fst (crop_thumb decode encode w))
   \<and> dirs (fst (crop_thumb decode encode (fst (crop_thumb decode encode w))))
       = dirs (fst (crop_thumb decode encode w))"
proof -
  obtain r w' where ocs: "open_crop_save decode encode w = (r, w')"
    by (cases "open_crop_save decode encode w")
  define m where "m = (case r of Inr u \<Rightarrow> ''Successfully cropped image to '' @ output_path
      | Inl e \<Rightarrow> ''Error cropping image: '' @ str e)"
  have first: "crop_thumb decode encode w = (print m w', 0)"
    using ocs by (simp add: crop_thumb_def m_def split: sum.splits)
  have "open_crop_save decode encode (print m w') = (r, print m w')"
    using open_crop_save_print[OF open_crop_save_again[OF ocs]] .
  then have second: "crop_thumb decode encode (print m w') = (print m (print m w'), 0)"
    by (simp add: crop_thumb_def m_def split: sum.splits)
  have l: "last (stdout (print m w')) = m" by (simp add: print_def)
  show ?thesis unfolding first fst_conv second l by (simp add: print_def)
qed

theorem C8_idempotent_witness:
  "files (fst (crop_thumb raw_decode raw_encode (machine (Some raw_4x2) None (Some True)))) output_path
     = Some \<lparr>content = [2, 2, 30, 40, 70, 80], read_only = False\<rparr>
   \<and> files (fst (crop_thumb raw_decode raw_encode
        (fst (crop_thumb raw_decode raw_encode (machine (Some raw_4x2) None (Some True)))))) output_path
     = Some \<lparr>content = [2, 2, 30, 40, 70, 80], read_only = False\<rparr>"
proof -
  have "files (fst (crop_thumb raw_decode raw_encode (machine (Some raw_4x2) None (Some True)))) output_path
     = Some \<lparr>content = [2, 2, 30, 40, 70, 80], read_only = False\<rparr>"
    by code_simp
  with C8_idempotent[of raw_decode raw_encode "machine (Some raw_4x2) None (Some True)"]
  show ?thesis by (simp add: print_def)
qed

text \<open>
  Claim C9.  Every run prints exactly one line on the standard output.  Either the
  open, the crop and the save all succeed and the line is the success line naming the
  output path, or one of them raises an exception and the line is the error line with
  the text of that very exception; the two lines are never equal.
\<close>

theorem C9_one_message:
  "\<exists>m. stdout (fst (crop_thumb decode encode w)) = stdout w @ [m]
     \<and> ((\<exists>img cropped_img w'. Image_open decode image_path w = Inr img
            \<and> crop img (crop_box (img_size img)) = Inr cropped_img
            \<and> save encode cropped_img output_path w = (Inr (), w'))
          \<and> m = ''Successfully cropped image to '' @ output_path
        \<or> (\<exists>e. (Image_open decode image_path w = Inl e
                 \<or> (\<exists>img. Image_open decode image_path w = Inr img
                       \<and> crop img (crop_box (img_size img)) = Inl e)
                 \<or> (\<exists>img cropped_img w'. Image_open decode image_path w = Inr img
                       \<and> crop img (crop_box (img_size img)) = Inr cropped_img
                       \<and> save encode cropped_img output_path w = (Inl e, w')))
              \<and> m = ''Error cropping image: '' @ str e))
     \<and> (\<forall>e. ''Successfully cropped image to '' @ output_path \<noteq> ''Error cropping image: '' @ str e)"
proof -
  obtain r w' where ocs: "open_crop_save decode encode w = (r, w')"
    by (cases "open_crop_save decode encode w")
  have so: "stdout w' = stdout w" using open_crop_save_frame(2)[OF ocs] .
  show ?thesis
  proof (cases r)
    case (Inl e)
    then have m: "stdout (fst (crop_thumb decode encode w)) = stdout w @ [''Error cropping image: '' @ str e]"
      using ocs so by (simp add: crop_thumb_def print_def)
    have "Image_open decode image_path w = Inl e
        \<or> (\<exists>img. Image_open decode image_path w = Inr img
              \<and> crop img (crop_box (img_size img)) = Inl e)
        \<or> (\<exists>img cropped_img w'. Image_open decode image_path w = Inr img
              \<and> crop img (crop_box (img_size img)) = Inr cropped_img
              \<and> save encode cropped_img output_path w = (Inl e, w'))"
      using ocs Inl by (auto simp: open_crop_save_def split: sum.splits)
    then show ?thesis using m by auto
  next
    case (Inr u)
    then have m: "stdout (fst (crop_thumb decode encode w))
        = stdout w @ [''Successfully cropped image to '' @ output_path]"
      using ocs so by (simp add: crop_thumb_def print_def)
    have "\<exists>img cropped_img w'. Image_open decode image_path w = Inr img
            \<and> crop img (crop_box (img_size img)) = Inr cropped_img
            \<and> save encode cropped_img output_path w = (Inr (), w')"
      using ocs Inr by (auto simp: open_crop_save_def split: sum.splits)
    then show ?thesis using m by auto
  qed
qed

theorem C9_one_message_witness:
  "stdout (fst (crop_thumb raw_decode raw_encode (machine (Some raw_4x2) None (Some True))))
     = [''Successfully cropped image to '' @ output_path]
   \<and> stdout (fst (crop_thumb raw_decode raw_encode (machine None None (Some True))))
     = [''Error cropping image: [Errno 2] No such file or directory: '' @ py_repr image_path]"
proof -
  let ?M = "machine (Some raw_4x2) None (Some True)"
  let ?N = "machine None None (Some True)"
  have s: "stdout ?M = []" "stdout ?N = []" by (simp_all add: machine_def)
  have o: "Image_open raw_decode image_path ?M
      = Inr \<lparr>img_size = (4, 2), img_data = Inr [[10, 20, 30, 40], [50, 60, 70, 80]]\<rparr>"
    by (rule open_raw_4x2)
  have sv: "save raw_encode \<lparr>img_size = (2, 2), img_data = Inr [[30, 40], [70, 80]]\<rparr> output_path ?M
      = (Inr (), write_file output_path [2, 2, 30, 40, 70, 80] ?M)"
    by (simp add: save_raw_2x2 open_w_machine)
  from C9_one_message[of raw_decode raw_encode ?M] o crop_raw_4x2 sv s
  have 1: "stdout (fst (crop_thumb raw_decode raw_encode ?M))
     = [''Successfully cropped image to '' @ output_path]"
    by auto
  have n: "Image_open raw_decode image_path ?N
      = Inl (FileNotFoundError (''[Errno 2] No such file or directory: '' @ py_repr image_path))"
    by (simp add: Image_open_def machine_def)
  from C9_one_message[of raw_decode raw_encode ?N] n s
  have 2: "stdout (fst (crop_thumb raw_decode raw_encode ?N))
     = [''Error cropping image: [Errno 2] No such file or directory: '' @ py_repr image_path]"
    by auto
  from 1 2 show ?thesis by blast
qed

end
